theory Spec2Isabelle
  imports Complex_Main
begin

section \<open>Exceptions and results\<close>

text \<open>
  The exception classes that the code can meet. \<open>DatabaseError\<close> is
  \<^verbatim>\<open>oracledb.DatabaseError\<close>, the only class that \<^verbatim>\<open>get_db_connection\<close> catches;
  \<open>InterfaceError\<close> is the driver's other error class, \<open>StorageError\<close> stands for the
  errors of the blob storage client, \<open>OSError\<close> for a failing \<^verbatim>\<open>open\<close>, and
  \<open>ValueError\<close> is what numpy raises for a negative \<^verbatim>\<open>size\<close> or a shape mismatch.
  All of them are subclasses of \<^verbatim>\<open>Exception\<close>.
\<close>

datatype exn = DatabaseError | InterfaceError | StorageError | OSError | ValueError

section \<open>Observation records\<close>

text \<open>
  \<^verbatim>\<open>DataTuple = Tuple[str, str, float, int, str, float, int]\<close>, in the column order of
  the insert statement. Floats are read as reals.
\<close>

record data_tuple =
  time_of_day :: string
  season :: string
  temperature :: real
  household_size :: int
  day_of_week :: string
  water_consumption :: real
  is_anomaly :: int

section \<open>The random source\<close>

text \<open>
  numpy's global generator, made explicit: a stream of raw integers, a stream of standard
  normal draws and a stream of uniform draws on the unit interval, read at a common
  position that every call advances by the number of samples it takes.
\<close>

record rng =
  raw :: "nat \<Rightarrow> nat"
  normal01 :: "nat \<Rightarrow> real"
  uniform01 :: "nat \<Rightarrow> real"
  pos :: nat

text \<open>\<^verbatim>\<open>np.random.choice(options, size=n)\<close>: uniform over the options; a negative size raises.\<close>

definition np_random_choice :: "'a list \<Rightarrow> int \<Rightarrow> rng \<Rightarrow> exn + ('a list \<times> rng)" where
  "np_random_choice options n g =
     (if n < 0 then Inl ValueError
      else Inr (map (\<lambda>k. options ! (raw g (pos g + k) mod length options)) [0..<nat n],
                g\<lparr>pos := pos g + nat n\<rparr>))"

text \<open>\<^verbatim>\<open>np.random.normal(loc, scale, size=n)\<close>.\<close>

definition np_random_normal :: "real \<Rightarrow> real \<Rightarrow> int \<Rightarrow> rng \<Rightarrow> exn + (real list \<times> rng)" where
  "np_random_normal loc scale n g =
     (if n < 0 then Inl ValueError
      else Inr (map (\<lambda>k. loc + scale * normal01 g (pos g + k)) [0..<nat n],
                g\<lparr>pos := pos g + nat n\<rparr>))"

text \<open>\<^verbatim>\<open>np.random.randint(low, high, size=n)\<close>: integers from \<open>low\<close> up to \<open>high - 1\<close>.\<close>

definition np_random_randint :: "int \<Rightarrow> int \<Rightarrow> int \<Rightarrow> rng \<Rightarrow> exn + (int list \<times> rng)" where
  "np_random_randint low high n g =
     (if n < 0 \<or> high \<le> low then Inl ValueError
      else Inr (map (\<lambda>k. low + int (raw g (pos g + k)) mod (high - low)) [0..<nat n],
                g\<lparr>pos := pos g + nat n\<rparr>))"

text \<open>
  \<^verbatim>\<open>np.random.choice([True, False], size=n, p=[p, 1 - p])\<close>: the first option is taken
  when the uniform draw falls below \<open>p\<close>.
\<close>

definition np_random_choice_p :: "real \<Rightarrow> int \<Rightarrow> rng \<Rightarrow> exn + (bool list \<times> rng)" where
  "np_random_choice_p p n g =
     (if n < 0 then Inl ValueError
      else Inr (map (\<lambda>k. uniform01 g (pos g + k) < p) [0..<nat n],
                g\<lparr>pos := pos g + nat n\<rparr>))"

text \<open>\<^verbatim>\<open>np.sum(anomalies)\<close>: the number of \<^verbatim>\<open>True\<close> entries.\<close>

definition np_sum :: "bool list \<Rightarrow> int" where
  "np_sum ms = int (length (filter (\<lambda>m. m) ms))"

text \<open>
  \<^verbatim>\<open>a[mask] += values\<close>: the entries of \<open>a\<close> selected by the boolean mask receive the
  values in order. A mask of another length than the array, or a number of values other
  than the number of selected entries, raises.
\<close>

fun add_masked :: "real list \<Rightarrow> bool list \<Rightarrow> real list \<Rightarrow> exn + real list" where
  "add_masked [] [] [] = Inr []"
| "add_masked (x # xs) (True # ms) (v # vs) =
     (case add_masked xs ms vs of Inl e \<Rightarrow> Inl e | Inr ys \<Rightarrow> Inr ((x + v) # ys))"
| "add_masked (x # xs) (False # ms) vs =
     (case add_masked xs ms vs of Inl e \<Rightarrow> Inl e | Inr ys \<Rightarrow> Inr (x # ys))"
| "add_masked _ _ _ = Inl ValueError"

section \<open>The sample generator\<close>

definition times_of_day :: "string list" where
  "times_of_day = [''morning'', ''afternoon'', ''evening'', ''night'']"

definition seasons :: "string list" where
  "seasons = [''spring'', ''summer'', ''fall'', ''winter'']"

definition days_of_week :: "string list" where
  "days_of_week = [''weekday'', ''weekend'']"

text \<open>The list comprehension of the \<^verbatim>\<open>return\<close> statement, for \<open>i\<close> in \<open>range(n_samples)\<close>.\<close>

definition build_tuples ::
  "int \<Rightarrow> string list \<Rightarrow> string list \<Rightarrow> real list \<Rightarrow> int list \<Rightarrow> string list \<Rightarrow> real list
     \<Rightarrow> bool list \<Rightarrow> data_tuple list" where
  "build_tuples n tod sea temp hs dow cons anom =
     map (\<lambda>i. \<lparr>time_of_day = tod ! i, season = sea ! i, temperature = temp ! i,
                household_size = hs ! i, day_of_week = dow ! i,
                water_consumption = cons ! i,
                is_anomaly = (if anom ! i then 1 else 0)\<rparr>) [0..<nat n]"

definition generate_sample_data_tuples :: "int \<Rightarrow> rng \<Rightarrow> exn + (data_tuple list \<times> rng)" where
  "generate_sample_data_tuples n_samples g0 =
     (case np_random_choice times_of_day n_samples g0 of Inl e \<Rightarrow> Inl e
      | Inr (tod, g1) \<Rightarrow>
     (case np_random_choice seasons n_samples g1 of Inl e \<Rightarrow> Inl e
      | Inr (sea, g2) \<Rightarrow>
     (case np_random_normal 20 5 n_samples g2 of Inl e \<Rightarrow> Inl e
      | Inr (temp, g3) \<Rightarrow>
     (case np_random_randint 1 6 n_samples g3 of Inl e \<Rightarrow> Inl e
      | Inr (hs, g4) \<Rightarrow>
     (case np_random_choice days_of_week n_samples g4 of Inl e \<Rightarrow> Inl e
      | Inr (dow, g5) \<Rightarrow>
     (case np_random_normal 0 10 n_samples g5 of Inl e \<Rightarrow> Inl e
      | Inr (noise, g6) \<Rightarrow>
     (let normal_consumption = map (\<lambda>(h, z). real_of_int (h * 50) + z) (zip hs noise) in
     (case np_random_choice_p (5 / 100) n_samples g6 of Inl e \<Rightarrow> Inl e
      | Inr (anomalies, g7) \<Rightarrow>
     (case np_random_choice [0, 250] (np_sum anomalies) g7 of Inl e \<Rightarrow> Inl e
      | Inr (bumps, g8) \<Rightarrow>
     (case add_masked normal_consumption anomalies bumps of Inl e \<Rightarrow> Inl e
      | Inr anomalous_consumption \<Rightarrow>
          Inr (build_tuples n_samples tod sea temp hs dow anomalous_consumption anomalies,
               g8)))))))))))"

section \<open>The world outside the job\<close>

text \<open>
  Log records and the calls made to the database driver, in program order. The three
  \<^verbatim>\<open>logging\<close> messages carry their arguments instead of a formatted string.
\<close>

datatype event =
    LogPastDue
  | LogDownloaded string string
  | LogDownloadError exn
  | LogConnectError exn
  | LogInserted nat
  | CallConnect
  | CallExecuteMany nat
  | CallCommit
  | CallClose

text \<open>
  What a run can change: the local files, numpy's generator, the target table (its
  committed rows, and the rows of the session's open transaction), whether the session is
  open, and the log.
\<close>

record world =
  files :: "string \<Rightarrow> string option"
  np_random :: rng
  db_table :: "data_tuple list"
  db_txn :: "data_tuple list"
  db_connected :: bool
  log :: "event list"

text \<open>
  What the run is given: the timer's flag, the two path settings, and how the external
  services answer during the run (\<open>None\<close> where a call succeeds, the exception where it
  raises).
\<close>

record env =
  past_due :: bool
  temp_dir :: string
  wallet_location_var :: "string option"
  client_failure :: "exn option"
  open_failure :: "string \<Rightarrow> exn option"
  blob_contents :: "string \<Rightarrow> exn + string"
  connect_failure :: "exn option"
  row_rejected :: "data_tuple \<Rightarrow> bool"
  commit_failure :: "exn option"

definition emit :: "event \<Rightarrow> world \<Rightarrow> world" where
  "emit ev w = w\<lparr>log := log w @ [ev]\<rparr>"

section \<open>Paths\<close>

text \<open>\<^verbatim>\<open>os.path.join\<close> of two components, on POSIX.\<close>

definition os_path_join :: "string \<Rightarrow> string \<Rightarrow> string" where
  "os_path_join a b =
     (if b \<noteq> [] \<and> hd b = CHR ''/'' then b
      else if a = [] \<or> last a = CHR ''/'' then a @ b
      else a @ ''/'' @ b)"

definition WALLET_LOCATION :: "env \<Rightarrow> string" where
  "WALLET_LOCATION e =
     os_path_join (temp_dir e)
       (case wallet_location_var e of None \<Rightarrow> ''wallet'' | Some v \<Rightarrow> v)"

definition PEM_PATH :: "env \<Rightarrow> string" where
  "PEM_PATH e = os_path_join (WALLET_LOCATION e) ''ewallet.pem''"

definition TNS_PATH :: "env \<Rightarrow> string" where
  "TNS_PATH e = os_path_join (WALLET_LOCATION e) ''tnsnames.ora''"

section \<open>Downloading the wallet files\<close>

record blob_file =
  blob :: string
  local_path :: string

text \<open>
  \<^verbatim>\<open>download_file\<close>: the local file is opened for writing (and so truncated) before the
  blob is read; the bytes are written once the whole blob has arrived.
\<close>

definition download_file :: "env \<Rightarrow> string \<Rightarrow> string \<Rightarrow> world \<Rightarrow> (exn + unit) \<times> world" where
  "download_file e blob_name path w =
     (case open_failure e path of
        Some x \<Rightarrow> (Inl x, w)
      | None \<Rightarrow>
         (let w1 = w\<lparr>files := (files w)(path \<mapsto> [])\<rparr> in
          case blob_contents e blob_name of
            Inl x \<Rightarrow> (Inl x, w1)
          | Inr bytes \<Rightarrow>
              (Inr (), emit (LogDownloaded blob_name path)
                         (w1\<lparr>files := (files w1)(path \<mapsto> bytes)\<rparr>))))"

text \<open>The \<^verbatim>\<open>for\<close> loop over \<^verbatim>\<open>files_to_download\<close>; an exception leaves the loop.\<close>

fun download_each :: "env \<Rightarrow> blob_file list \<Rightarrow> world \<Rightarrow> (exn + unit) \<times> world" where
  "download_each e [] w = (Inr (), w)"
| "download_each e (file_info # rest) w =
     (case download_file e (blob file_info) (local_path file_info) w of
        (Inl x, w') \<Rightarrow> (Inl x, w')
      | (Inr u, w') \<Rightarrow> download_each e rest w')"

text \<open>The body of the \<^verbatim>\<open>try\<close> block of \<^verbatim>\<open>download_wallet_files\<close>.\<close>

definition download_wallet_files_try :: "env \<Rightarrow> world \<Rightarrow> (exn + unit) \<times> world" where
  "download_wallet_files_try e w =
     (case client_failure e of
        Some x \<Rightarrow> (Inl x, w)
      | None \<Rightarrow>
          download_each e
            [\<lparr>blob = ''ewallet.pem'', local_path = PEM_PATH e\<rparr>,
             \<lparr>blob = ''tnsnames.ora'', local_path = TNS_PATH e\<rparr>] w)"

text \<open>\<^verbatim>\<open>except Exception as e: logging.error(...)\<close> catches every exception of the body.\<close>

definition download_wallet_files :: "env \<Rightarrow> world \<Rightarrow> (exn + unit) \<times> world" where
  "download_wallet_files e w =
     (case download_wallet_files_try e w of
        (Inl x, w') \<Rightarrow> (Inr (), emit (LogDownloadError x) w')
      | (Inr u, w') \<Rightarrow> (Inr (), w'))"

section \<open>The database\<close>

datatype connection = Connection

text \<open>
  \<^verbatim>\<open>get_db_connection\<close>: only \<^verbatim>\<open>oracledb.DatabaseError\<close> is caught and turned into
  \<^verbatim>\<open>None\<close>; any other exception of \<^verbatim>\<open>oracledb.connect\<close> leaves the function.
\<close>

definition get_db_connection :: "env \<Rightarrow> world \<Rightarrow> (exn + connection option) \<times> world" where
  "get_db_connection e w =
     (let w1 = emit CallConnect w in
      case connect_failure e of
        None \<Rightarrow> (Inr (Some Connection), w1\<lparr>db_txn := [], db_connected := True\<rparr>)
      | Some x \<Rightarrow>
          (if x = DatabaseError then (Inr None, emit (LogConnectError x) w1)
           else (Inl x, w1)))"

text \<open>
  \<^verbatim>\<open>cursor.executemany\<close>: the rows are sent in order; the first row that the database
  rejects raises \<^verbatim>\<open>DatabaseError\<close>, and the rows before it stay in the open
  transaction. The second component is the list of rows that were executed.
\<close>

fun executemany :: "(data_tuple \<Rightarrow> bool) \<Rightarrow> data_tuple list \<Rightarrow> (exn + unit) \<times> data_tuple list" where
  "executemany rej [] = (Inr (), [])"
| "executemany rej (r # rs) =
     (if rej r then (Inl DatabaseError, [])
      else (case executemany rej rs of (res, done) \<Rightarrow> (res, r # done)))"

text \<open>
  \<^verbatim>\<open>insert_data\<close>: \<^verbatim>\<open>connection.cursor()\<close> (which raises on a closed connection),
  \<^verbatim>\<open>cursor.executemany\<close>, \<^verbatim>\<open>connection.commit()\<close>, \<^verbatim>\<open>cursor.close()\<close>, the log
  record. There is no handler: an exception of any step leaves the function at that step.
\<close>

definition insert_data ::
  "env \<Rightarrow> connection \<Rightarrow> data_tuple list \<Rightarrow> world \<Rightarrow> (exn + unit) \<times> world" where
  "insert_data e conn data_tuples w =
     (if \<not> db_connected w then (Inl InterfaceError, w)
      else
        (let w1 = emit (CallExecuteMany (length data_tuples)) w in
         case executemany (row_rejected e) data_tuples of
           (Inl x, done) \<Rightarrow> (Inl x, w1\<lparr>db_txn := db_txn w1 @ done\<rparr>)
         | (Inr u, done) \<Rightarrow>
            (let w2 = emit CallCommit (w1\<lparr>db_txn := db_txn w1 @ done\<rparr>) in
             case commit_failure e of
               Some x \<Rightarrow> (Inl x, w2)
             | None \<Rightarrow>
                 (Inr (), emit (LogInserted (length data_tuples))
                            (w2\<lparr>db_table := db_table w2 @ db_txn w2, db_txn := []\<rparr>)))))"

text \<open>\<^verbatim>\<open>connection.close()\<close>: the session ends and its uncommitted rows are discarded.\<close>

definition connection_close :: "world \<Rightarrow> world" where
  "connection_close w = emit CallClose (w\<lparr>db_txn := [], db_connected := False\<rparr>)"

section \<open>The timer-triggered job\<close>

text \<open>
  \<^verbatim>\<open>generate_usage_data\<close>. The first component of the result is \<open>Inl x\<close> when the
  exception \<open>x\<close> leaves the function, \<open>Inr ()\<close> when it returns.
\<close>

definition generate_usage_data :: "env \<Rightarrow> world \<Rightarrow> (exn + unit) \<times> world" where
  "generate_usage_data e w0 =
     (let w1 = (if past_due e then emit LogPastDue w0 else w0) in
      case download_wallet_files e w1 of
        (Inl x, w2) \<Rightarrow> (Inl x, w2)
      | (Inr u, w2) \<Rightarrow>
         (case get_db_connection e w2 of
            (Inl x, w3) \<Rightarrow> (Inl x, w3)
          | (Inr None, w3) \<Rightarrow> (Inr (), w3)
          | (Inr (Some connection), w3) \<Rightarrow>
             (case generate_sample_data_tuples 10 (np_random w3) of
                Inl x \<Rightarrow> (Inl x, w3)
              | Inr (data_tuples, g) \<Rightarrow>
                 (case insert_data e connection data_tuples (w3\<lparr>np_random := g\<rparr>) of
                    (Inl x, w4) \<Rightarrow> (Inl x, w4)
                  | (Inr u', w4) \<Rightarrow> (Inr (), connection_close w4)))))"

text \<open>The events that a run added to the log.\<close>

definition new_events :: "world \<Rightarrow> world \<Rightarrow> event list" where
  "new_events w w' = drop (length (log w)) (log w')"

section \<open>Concrete inputs\<close>

definition g_zero :: rng where
  "g_zero = \<lparr>raw = (\<lambda>k. k), normal01 = (\<lambda>k. 0), uniform01 = (\<lambda>k. 0), pos = 0\<rparr>"

definition w_init :: world where
  "w_init = \<lparr>files = (\<lambda>p. None), np_random = g_zero, db_table = [], db_txn = [],
             db_connected = False, log = []\<rparr>"

definition e_ok :: env where
  "e_ok = \<lparr>past_due = False, temp_dir = ''/tmp'', wallet_location_var = None,
           client_failure = None, open_failure = (\<lambda>p. None),
           blob_contents = (\<lambda>b. Inr b), connect_failure = None,
           row_rejected = (\<lambda>r. False), commit_failure = None\<rparr>"

text \<open>A database that rejects every row, and a storage service that serves no blob.\<close>

definition e_reject_all :: env where
  "e_reject_all = e_ok\<lparr>row_rejected := (\<lambda>r. True)\<rparr>"

definition e_no_blob :: env where
  "e_no_blob = e_ok\<lparr>blob_contents := (\<lambda>b. Inl StorageError)\<rparr>"





text \<open>A database that cannot be reached.\<close>

definition e_no_connect :: env where
  "e_no_connect = e_ok\<lparr>connect_failure := Some DatabaseError\<rparr>"

text \<open>The two log records that the download stage writes.\<close>

fun is_download_event :: "event \<Rightarrow> bool" where
  "is_download_event (LogDownloaded b p) = True"
| "is_download_event (LogDownloadError x) = True"
| "is_download_event _ = False"

section \<open>The generator: shape of the result\<close>

lemma add_masked_ok:
  "length ms = length xs \<Longrightarrow> length vs = length (filter (\<lambda>m. m) ms) \<Longrightarrow>
   \<exists>ys. add_masked xs ms vs = Inr ys \<and> length ys = length xs \<and>
     (\<forall>i<length xs. ys ! i = xs ! i + (if ms ! i then vs ! length (filter (\<lambda>m. m) (take i ms)) else 0))"
proof (induction xs ms vs rule: add_masked.induct)
  case 1
  then show ?case by simp
next
  case (2 x xs ms v vs)
  then obtain ys where ys: "add_masked xs ms vs = Inr ys" "length ys = length xs"
    "\<forall>i<length xs. ys ! i = xs ! i + (if ms ! i then vs ! length (filter (\<lambda>m. m) (take i ms)) else 0)"
    by auto
  show ?case
  proof (intro exI conjI allI impI)
    show "add_masked (x # xs) (True # ms) (v # vs) = Inr ((x + v) # ys)" using ys by simp
    show "length ((x + v) # ys) = length (x # xs)" using ys by simp
    fix i assume "i < length (x # xs)"
    then show "((x + v) # ys) ! i = (x # xs) ! i +
        (if (True # ms) ! i then (v # vs) ! length (filter (\<lambda>m. m) (take i (True # ms))) else 0)"
      using ys(3) by (cases i) auto
  qed
next
  case (3 x xs ms vs)
  then obtain ys where ys: "add_masked xs ms vs = Inr ys" "length ys = length xs"
    "\<forall>i<length xs. ys ! i = xs ! i + (if ms ! i then vs ! length (filter (\<lambda>m. m) (take i ms)) else 0)"
    by auto
  show ?case
  proof (intro exI conjI allI impI)
    show "add_masked (x # xs) (False # ms) vs = Inr (x # ys)" using ys by simp
    show "length (x # ys) = length (x # xs)" using ys by simp
    fix i assume "i < length (x # xs)"
    then show "(x # ys) ! i = (x # xs) ! i +
        (if (False # ms) ! i then vs ! length (filter (\<lambda>m. m) (take i (False # ms))) else 0)"
      using ys(3) by (cases i) auto
  qed
qed auto

lemma filter_take_less:
  assumes "i < length ms" "ms ! i"
  shows "length (filter (\<lambda>m. m) (take i ms)) < length (filter (\<lambda>m. m) ms)"
proof -
  have "ms = take i ms @ ms ! i # drop (Suc i) ms" using assms(1) by (simp add: id_take_nth_drop)
  then have "filter (\<lambda>m. m) ms = filter (\<lambda>m. m) (take i ms) @ filter (\<lambda>m. m) (ms ! i # drop (Suc i) ms)"
    by (metis filter_append)
  then show ?thesis using assms(2) by simp
qed

lemma gen_rows:
  assumes n: "0 \<le> n"
  shows "\<exists>rows g'. generate_sample_data_tuples n g = Inr (rows, g') \<and> length rows = nat n \<and>
    (\<forall>i<nat n.
       time_of_day (rows ! i) = times_of_day ! (raw g (pos g + i) mod 4) \<and>
       season (rows ! i) = seasons ! (raw g (pos g + nat n + i) mod 4) \<and>
       temperature (rows ! i) = 20 + 5 * normal01 g (pos g + 2 * nat n + i) \<and>
       household_size (rows ! i) = 1 + int (raw g (pos g + 3 * nat n + i)) mod 5 \<and>
       day_of_week (rows ! i) = days_of_week ! (raw g (pos g + 4 * nat n + i) mod 2) \<and>
       is_anomaly (rows ! i) = (if uniform01 g (pos g + 6 * nat n + i) < 5 / 100 then 1 else 0) \<and>
       (\<exists>b. (b = 0 \<or> b = 250) \<and>
          water_consumption (rows ! i) =
            real_of_int (household_size (rows ! i) * 50)
            + (0 + 10 * normal01 g (pos g + 5 * nat n + i))
            + (if uniform01 g (pos g + 6 * nat n + i) < 5 / 100 then b else 0)))"
proof -
  define m where "m = nat n"
  define tod where "tod = map (\<lambda>k. times_of_day ! (raw g (pos g + k) mod 4)) [0..<m]"
  define sea where "sea = map (\<lambda>k. seasons ! (raw g (pos g + m + k) mod 4)) [0..<m]"
  define temp where "temp = map (\<lambda>k. 20 + 5 * normal01 g (pos g + 2 * m + k)) [0..<m]"
  define hs where "hs = map (\<lambda>k. 1 + int (raw g (pos g + 3 * m + k)) mod 5) [0..<m]"
  define dow where "dow = map (\<lambda>k. days_of_week ! (raw g (pos g + 4 * m + k) mod 2)) [0..<m]"
  define noise where "noise = map (\<lambda>k. 0 + 10 * normal01 g (pos g + 5 * m + k)) [0..<m]"
  define nc where "nc = map (\<lambda>(h, z). real_of_int (h * 50) + z) (zip hs noise)"
  define an where "an = map (\<lambda>k. uniform01 g (pos g + 6 * m + k) < 5 / 100) [0..<m]"
  define K where "K = length (filter (\<lambda>m. m) an)"
  define bumps :: "real list" where
    "bumps = map (\<lambda>k. [0, 250] ! (raw g (pos g + 7 * m + k) mod 2)) [0..<K]"
  define st where "st = (\<lambda>j. g\<lparr>pos := pos g + j\<rparr>)"
  have st: "raw (st j) = raw g" "normal01 (st j) = normal01 g" "uniform01 (st j) = uniform01 g"
    "pos (st j) = pos g + j" "(st j)\<lparr>pos := pos (st j) + k\<rparr> = st (j + k)" for j k
    by (simp_all add: st_def add.assoc)
  have c1: "np_random_choice times_of_day n g = Inr (tod, st m)"
    using n by (simp add: np_random_choice_def tod_def st_def m_def times_of_day_def)
  have c2: "np_random_choice seasons n (st m) = Inr (sea, st (2 * m))"
    using n by (simp add: np_random_choice_def sea_def st m_def seasons_def add.assoc)
  have c3: "np_random_normal 20 5 n (st (2 * m)) = Inr (temp, st (3 * m))"
    using n by (simp add: np_random_normal_def temp_def st m_def add.assoc)
  have c4: "np_random_randint 1 6 n (st (3 * m)) = Inr (hs, st (4 * m))"
    using n by (simp add: np_random_randint_def hs_def st m_def add.assoc)
  have c5: "np_random_choice days_of_week n (st (4 * m)) = Inr (dow, st (5 * m))"
    using n by (simp add: np_random_choice_def dow_def st m_def days_of_week_def add.assoc numeral_2_eq_2)
  have c6: "np_random_normal 0 10 n (st (5 * m)) = Inr (noise, st (6 * m))"
    using n by (simp add: np_random_normal_def noise_def st m_def add.assoc)
  have c7: "np_random_choice_p (5 / 100) n (st (6 * m)) = Inr (an, st (7 * m))"
    using n by (simp add: np_random_choice_p_def an_def st m_def add.assoc)
  have c8: "np_random_choice [0, 250] (np_sum an) (st (7 * m)) = Inr (bumps, st (7 * m + K))"
    by (simp add: np_random_choice_def np_sum_def bumps_def st K_def add.assoc numeral_2_eq_2)
  have len: "length an = length nc" "length bumps = length (filter (\<lambda>m. m) an)"
    by (simp_all add: an_def nc_def hs_def noise_def bumps_def K_def)
  from add_masked_ok [OF len] obtain ys where ys: "add_masked nc an bumps = Inr ys"
    "length ys = length nc"
    "\<forall>i<length nc. ys ! i = nc ! i + (if an ! i then bumps ! length (filter (\<lambda>m. m) (take i an)) else 0)"
    by blast
  have lnc: "length nc = m" by (simp add: nc_def hs_def noise_def)
  have bump: "bumps ! j = 0 \<or> bumps ! j = 250" if "j < K" for j
  proof -
    have "raw g (pos g + 7 * m + j) mod 2 = 0 \<or> raw g (pos g + 7 * m + j) mod 2 = 1" by arith
    then show ?thesis using that by (auto simp: bumps_def)
  qed
  have gen: "generate_sample_data_tuples n g =
     Inr (build_tuples n tod sea temp hs dow ys an, st (7 * m + K))"
    unfolding generate_sample_data_tuples_def
    by (simp only: c1 c2 c3 c4 c5 c6 c7 c8 ys(1) Let_def nc_def [symmetric] sum.case prod.case)
  have water: "\<exists>b. (b = 0 \<or> b = 250) \<and>
      ys ! i = real_of_int (hs ! i * 50) + noise ! i + (if an ! i then b else 0)" if i: "i < m" for i
  proof (cases "an ! i")
    case True
    have "length (filter (\<lambda>m. m) (take i an)) < K"
      unfolding K_def using i True by (intro filter_take_less) (simp_all add: an_def)
    from bump [OF this] show ?thesis using ys(3) i lnc True
      by (auto simp: nc_def hs_def noise_def)
  next
    case False
    then show ?thesis using ys(3) i lnc by (auto simp: nc_def hs_def noise_def)
  qed
  define rows where "rows = build_tuples n tod sea temp hs dow ys an"
  have lrows: "length rows = nat n"
    by (simp add: rows_def build_tuples_def)
  have props: "time_of_day (rows ! i) = times_of_day ! (raw g (pos g + i) mod 4) \<and>
       season (rows ! i) = seasons ! (raw g (pos g + nat n + i) mod 4) \<and>
       temperature (rows ! i) = 20 + 5 * normal01 g (pos g + 2 * nat n + i) \<and>
       household_size (rows ! i) = 1 + int (raw g (pos g + 3 * nat n + i)) mod 5 \<and>
       day_of_week (rows ! i) = days_of_week ! (raw g (pos g + 4 * nat n + i) mod 2) \<and>
       is_anomaly (rows ! i) = (if uniform01 g (pos g + 6 * nat n + i) < 5 / 100 then 1 else 0) \<and>
       (\<exists>b. (b = 0 \<or> b = 250) \<and>
          water_consumption (rows ! i) =
            real_of_int (household_size (rows ! i) * 50)
            + (0 + 10 * normal01 g (pos g + 5 * nat n + i))
            + (if uniform01 g (pos g + 6 * nat n + i) < 5 / 100 then b else 0))"
    if i: "i < nat n" for i
  proof -
    have im: "i < m" using i by (simp add: m_def)
    have r: "rows ! i = \<lparr>time_of_day = tod ! i, season = sea ! i, temperature = temp ! i,
                household_size = hs ! i, day_of_week = dow ! i,
                water_consumption = ys ! i,
                is_anomaly = (if an ! i then 1 else 0)\<rparr>"
      using i by (simp add: rows_def build_tuples_def)
    from water [OF im] obtain b where b: "b = 0 \<or> b = 250"
      "ys ! i = real_of_int (hs ! i * 50) + noise ! i + (if an ! i then b else 0)" by blast
    have w: "water_consumption (rows ! i) =
            real_of_int (household_size (rows ! i) * 50)
            + (0 + 10 * normal01 g (pos g + 5 * nat n + i))
            + (if uniform01 g (pos g + 6 * nat n + i) < 5 / 100 then b else 0)"
      using b(2) im unfolding r by (simp add: noise_def an_def m_def)
    have f: "time_of_day (rows ! i) = times_of_day ! (raw g (pos g + i) mod 4)"
      "season (rows ! i) = seasons ! (raw g (pos g + nat n + i) mod 4)"
      "temperature (rows ! i) = 20 + 5 * normal01 g (pos g + 2 * nat n + i)"
      "household_size (rows ! i) = 1 + int (raw g (pos g + 3 * nat n + i)) mod 5"
      "day_of_week (rows ! i) = days_of_week ! (raw g (pos g + 4 * nat n + i) mod 2)"
      "is_anomaly (rows ! i) = (if uniform01 g (pos g + 6 * nat n + i) < 5 / 100 then 1 else 0)"
      using im unfolding r
      by (simp_all add: tod_def sea_def temp_def hs_def dow_def an_def m_def)
    show ?thesis using f b(1) w by blast
  qed
  have "generate_sample_data_tuples n g = Inr (rows, st (7 * m + K))"
    using gen by (simp add: rows_def)
  then show ?thesis using lrows props by blast
qed

lemma gen_negative: "n < 0 \<Longrightarrow> generate_sample_data_tuples n g = Inl ValueError"
  by (simp add: generate_sample_data_tuples_def np_random_choice_def)

section \<open>Claims about the generator\<close>

text \<open>
  Claim C5. For every \<open>n > 0\<close>, \<^verbatim>\<open>generate_sample_data_tuples(n)\<close> returns exactly \<open>n\<close>
  records, in the order of generation; in each of them the three categorical fields are
  drawn from their fixed sets, \<open>household_size\<close> is an integer from 1 to 5, and
  \<open>is_anomaly\<close> is 0 or 1. All seven fields are present and \<open>temperature\<close> is a real
  number by the type of the record.
\<close>
theorem generate_returns_n_records_in_domain:
  "0 < n \<Longrightarrow>
   \<exists>rows g'. generate_sample_data_tuples n g = Inr (rows, g') \<and> int (length rows) = n \<and>
     (\<forall>r\<in>set rows.
        time_of_day r \<in> {''morning'', ''afternoon'', ''evening'', ''night''} \<and>
        season r \<in> {''spring'', ''summer'', ''fall'', ''winter''} \<and>
        day_of_week r \<in> {''weekday'', ''weekend''} \<and>
        1 \<le> household_size r \<and> household_size r \<le> 5 \<and>
        is_anomaly r \<in> {0, 1})"
proof -
  assume n: "0 < n"
  then have "0 \<le> n" by simp
  from gen_rows [OF this, of g] obtain rows g' where
    gen: "generate_sample_data_tuples n g = Inr (rows, g')" and len: "length rows = nat n" and
    props: "\<And>i. i < nat n \<Longrightarrow>
       time_of_day (rows ! i) = times_of_day ! (raw g (pos g + i) mod 4) \<and>
       season (rows ! i) = seasons ! (raw g (pos g + nat n + i) mod 4) \<and>
       temperature (rows ! i) = 20 + 5 * normal01 g (pos g + 2 * nat n + i) \<and>
       household_size (rows ! i) = 1 + int (raw g (pos g + 3 * nat n + i)) mod 5 \<and>
       day_of_week (rows ! i) = days_of_week ! (raw g (pos g + 4 * nat n + i) mod 2) \<and>
       is_anomaly (rows ! i) = (if uniform01 g (pos g + 6 * nat n + i) < 5 / 100 then 1 else 0) \<and>
       (\<exists>b. (b = 0 \<or> b = 250) \<and>
          water_consumption (rows ! i) =
            real_of_int (household_size (rows ! i) * 50)
            + (0 + 10 * normal01 g (pos g + 5 * nat n + i))
            + (if uniform01 g (pos g + 6 * nat n + i) < 5 / 100 then b else 0))"
    by blast
  have four: "xs ! (k mod 4) \<in> set xs" if "length xs = 4" for xs :: "string list" and k :: nat
    using that by (intro nth_mem) simp
  have two: "xs ! (k mod 2) \<in> set xs" if "length xs = 2" for xs :: "string list" and k :: nat
    using that by (intro nth_mem) simp
  have dom: "time_of_day r \<in> {''morning'', ''afternoon'', ''evening'', ''night''} \<and>
        season r \<in> {''spring'', ''summer'', ''fall'', ''winter''} \<and>
        day_of_week r \<in> {''weekday'', ''weekend''} \<and>
        1 \<le> household_size r \<and> household_size r \<le> 5 \<and>
        is_anomaly r \<in> {0, 1}" if "r \<in> set rows" for r
  proof -
    from that obtain i where i: "i < nat n" "r = rows ! i"
      using len by (metis in_set_conv_nth)
    note p = props [OF i(1), folded i(2)]
    have "time_of_day r \<in> set times_of_day"
      using p four [of times_of_day] by (simp add: times_of_day_def)
    moreover have "season r \<in> set seasons"
      using p four [of seasons] by (simp add: seasons_def)
    moreover have "day_of_week r \<in> set days_of_week"
      using p two [of days_of_week] by (simp add: days_of_week_def)
    moreover have "1 \<le> household_size r \<and> household_size r \<le> 5"
    proof -
      have "0 \<le> int (raw g (pos g + 3 * nat n + i)) mod 5"
        "int (raw g (pos g + 3 * nat n + i)) mod 5 < 5" by simp_all
      then show ?thesis using p by linarith
    qed
    moreover have "is_anomaly r \<in> {0, 1}" using p by simp
    ultimately show ?thesis
      by (simp add: times_of_day_def seasons_def days_of_week_def)
  qed
  have "int (length rows) = n" using len n by simp
  then show ?thesis using gen dom by blast
qed

theorem generate_returns_n_records_in_domain_witness:
  "(0::int) < 2 \<and>
   (\<exists>rows g'. generate_sample_data_tuples 2 g_zero = Inr (rows, g') \<and> int (length rows) = 2 \<and>
     (\<forall>r\<in>set rows.
        time_of_day r \<in> {''morning'', ''afternoon'', ''evening'', ''night''} \<and>
        season r \<in> {''spring'', ''summer'', ''fall'', ''winter''} \<and>
        day_of_week r \<in> {''weekday'', ''weekend''} \<and>
        1 \<le> household_size r \<and> household_size r \<le> 5 \<and>
        is_anomaly r \<in> {0, 1}))"
  using generate_returns_n_records_in_domain [of 2 g_zero] by simp

text \<open>
  Claim C6. In every generated record, \<open>water_consumption\<close> is
  \<open>household_size * 50\<close> plus the record's normal noise (mean 0, standard deviation 10,
  hence \<open>0 + 10 * z\<close> for the standard normal draw \<open>z\<close> of that record) when
  \<open>is_anomaly = 0\<close>; when \<open>is_anomaly = 1\<close> it is that baseline increased by 0 or by
  250. Records that are not flagged are never perturbed.
\<close>
theorem water_consumption_formula:
  assumes "generate_sample_data_tuples n g = Inr (rows, g')" and "i < length rows"
  shows "(is_anomaly (rows ! i) = 0 \<or> is_anomaly (rows ! i) = 1) \<and>
    (is_anomaly (rows ! i) = 0 \<longrightarrow>
       water_consumption (rows ! i) =
         real_of_int (household_size (rows ! i) * 50) + (0 + 10 * normal01 g (pos g + 5 * nat n + i))) \<and>
    (is_anomaly (rows ! i) = 1 \<longrightarrow>
       water_consumption (rows ! i) =
         real_of_int (household_size (rows ! i) * 50) + (0 + 10 * normal01 g (pos g + 5 * nat n + i)) + 0 \<or>
       water_consumption (rows ! i) =
         real_of_int (household_size (rows ! i) * 50) + (0 + 10 * normal01 g (pos g + 5 * nat n + i)) + 250)"
proof -
  have n: "0 \<le> n"
  proof (rule ccontr)
    assume "\<not> 0 \<le> n"
    then have "generate_sample_data_tuples n g = Inl ValueError" by (simp add: gen_negative)
    then show False using assms(1) by simp
  qed
  from gen_rows [OF n, of g] obtain rows2 g2 where
    gen2: "generate_sample_data_tuples n g = Inr (rows2, g2)" and len: "length rows2 = nat n" and
    props: "\<forall>i<nat n.
       time_of_day (rows2 ! i) = times_of_day ! (raw g (pos g + i) mod 4) \<and>
       season (rows2 ! i) = seasons ! (raw g (pos g + nat n + i) mod 4) \<and>
       temperature (rows2 ! i) = 20 + 5 * normal01 g (pos g + 2 * nat n + i) \<and>
       household_size (rows2 ! i) = 1 + int (raw g (pos g + 3 * nat n + i)) mod 5 \<and>
       day_of_week (rows2 ! i) = days_of_week ! (raw g (pos g + 4 * nat n + i) mod 2) \<and>
       is_anomaly (rows2 ! i) = (if uniform01 g (pos g + 6 * nat n + i) < 5 / 100 then 1 else 0) \<and>
       (\<exists>b. (b = 0 \<or> b = 250) \<and>
          water_consumption (rows2 ! i) =
            real_of_int (household_size (rows2 ! i) * 50)
            + (0 + 10 * normal01 g (pos g + 5 * nat n + i))
            + (if uniform01 g (pos g + 6 * nat n + i) < 5 / 100 then b else 0))"
    by blast
  have eq: "rows2 = rows" using gen2 assms(1) by simp
  from assms(2) len eq have i: "i < nat n" by simp
  from props i obtain b where
    an: "is_anomaly (rows ! i) = (if uniform01 g (pos g + 6 * nat n + i) < 5 / 100 then 1 else 0)" and
    b: "b = 0 \<or> b = 250" and
    w: "water_consumption (rows ! i) =
            real_of_int (household_size (rows ! i) * 50)
            + (0 + 10 * normal01 g (pos g + 5 * nat n + i))
            + (if uniform01 g (pos g + 6 * nat n + i) < 5 / 100 then b else 0)"
    unfolding eq by blast
  show ?thesis
  proof (cases "uniform01 g (pos g + 6 * nat n + i) < 5 / 100")
    case True
    then have "is_anomaly (rows ! i) = 1" using an by simp
    moreover have "water_consumption (rows ! i) =
            real_of_int (household_size (rows ! i) * 50)
            + (0 + 10 * normal01 g (pos g + 5 * nat n + i)) + b"
      using w True by simp
    ultimately show ?thesis using b by auto
  next
    case False
    then have "is_anomaly (rows ! i) = 0" using an by simp
    moreover have "water_consumption (rows ! i) =
            real_of_int (household_size (rows ! i) * 50)
            + (0 + 10 * normal01 g (pos g + 5 * nat n + i))"
      using w False by simp
    ultimately show ?thesis by simp
  qed
qed

theorem water_consumption_formula_witness:
  "\<exists>rows g'. generate_sample_data_tuples 2 g_zero = Inr (rows, g') \<and> 1 < length rows \<and>
    (is_anomaly (rows ! 1) = 0 \<or> is_anomaly (rows ! 1) = 1) \<and>
    (is_anomaly (rows ! 1) = 0 \<longrightarrow>
       water_consumption (rows ! 1) =
         real_of_int (household_size (rows ! 1) * 50) + (0 + 10 * normal01 g_zero (pos g_zero + 5 * nat 2 + 1))) \<and>
    (is_anomaly (rows ! 1) = 1 \<longrightarrow>
       water_consumption (rows ! 1) =
         real_of_int (household_size (rows ! 1) * 50) + (0 + 10 * normal01 g_zero (pos g_zero + 5 * nat 2 + 1)) + 0 \<or>
       water_consumption (rows ! 1) =
         real_of_int (household_size (rows ! 1) * 50) + (0 + 10 * normal01 g_zero (pos g_zero + 5 * nat 2 + 1)) + 250)"
proof -
  have "(0::int) \<le> 2" by simp
  from gen_rows [OF this, of g_zero] obtain rows g' where
    gen: "generate_sample_data_tuples 2 g_zero = Inr (rows, g')" and len: "length rows = nat 2"
    by blast
  from len have i: "1 < length rows" by simp
  from water_consumption_formula [OF gen i] gen i show ?thesis by blast
qed

text \<open>
  Claim C9. The generator succeeds for every \<open>n > 0\<close>. Its only other outcomes are at
  \<open>n \<le> 0\<close>: the empty sequence for \<open>n = 0\<close>, and the rejection of the input
  (\<^verbatim>\<open>ValueError\<close>, from numpy's negative size) for \<open>n < 0\<close>.
\<close>
theorem generator_total:
  "(0 < n \<longrightarrow> (\<exists>rows g'. generate_sample_data_tuples n g = Inr (rows, g') \<and> int (length rows) = n)) \<and>
   (n = 0 \<longrightarrow> (\<exists>g'. generate_sample_data_tuples n g = Inr ([], g'))) \<and>
   (n < 0 \<longrightarrow> generate_sample_data_tuples n g = Inl ValueError)"
proof (intro conjI impI)
  assume "0 < n"
  then have "0 \<le> n" by simp
  from gen_rows [OF this, of g] \<open>0 < n\<close>
  show "\<exists>rows g'. generate_sample_data_tuples n g = Inr (rows, g') \<and> int (length rows) = n"
    by auto
next
  assume "n = 0"
  then have "0 \<le> n" by simp
  from gen_rows [OF this, of g] \<open>n = 0\<close>
  show "\<exists>g'. generate_sample_data_tuples n g = Inr ([], g')" by auto
next
  assume "n < 0"
  then show "generate_sample_data_tuples n g = Inl ValueError" by (rule gen_negative)
qed

theorem generator_total_witness:
  "((0::int) < 10 \<and> (\<exists>rows g'. generate_sample_data_tuples 10 g_zero = Inr (rows, g') \<and> int (length rows) = 10)) \<and>
   (\<exists>g'. generate_sample_data_tuples 0 g_zero = Inr ([], g')) \<and>
   ((-1::int) < 0 \<and> generate_sample_data_tuples (-1) g_zero = Inl ValueError)"
  using generator_total [of 10 g_zero] generator_total [of 0 g_zero] generator_total [of "-1" g_zero]
  by simp

section \<open>The job: effects of each stage\<close>

lemma new_events_append: "log w' = log w @ evs \<Longrightarrow> new_events w w' = evs"
  by (simp add: new_events_def)

lemma download_file_frame:
  assumes "download_file e b p w = (r, w')"
  shows "np_random w' = np_random w \<and> db_table w' = db_table w \<and> db_txn w' = db_txn w \<and>
    db_connected w' = db_connected w \<and>
    (\<exists>evs. log w' = log w @ evs \<and> (\<forall>ev\<in>set evs. is_download_event ev))"
  using assms
  by (auto simp: download_file_def emit_def Let_def split: option.splits sum.splits)

lemma download_each_frame:
  "download_each e fs w = (r, w') \<Longrightarrow>
    np_random w' = np_random w \<and> db_table w' = db_table w \<and> db_txn w' = db_txn w \<and>
    db_connected w' = db_connected w \<and>
    (\<exists>evs. log w' = log w @ evs \<and> (\<forall>ev\<in>set evs. is_download_event ev))"
proof (induction fs arbitrary: w)
  case Nil
  then show ?case by simp
next
  case (Cons f fs)
  obtain r1 w1 where d: "download_file e (blob f) (local_path f) w = (r1, w1)"
    by (cases "download_file e (blob f) (local_path f) w")
  note fr = download_file_frame [OF d]
  show ?case
  proof (cases r1)
    case (Inl x)
    then have "w' = w1" using Cons.prems d by simp
    then show ?thesis using fr by simp
  next
    case (Inr u)
    then have "download_each e fs w1 = (r, w')" using Cons.prems d by simp
    from Cons.IH [OF this] fr show ?thesis by (auto simp: ball_Un)
  qed
qed

lemma download_wallet_files_try_frame:
  assumes t: "download_wallet_files_try e w = (r1, w1)"
  shows "np_random w1 = np_random w \<and> db_table w1 = db_table w \<and> db_txn w1 = db_txn w \<and>
    db_connected w1 = db_connected w \<and>
    (\<exists>evs. log w1 = log w @ evs \<and> (\<forall>ev\<in>set evs. is_download_event ev))"
proof (cases "client_failure e")
  case None
  then have "download_each e
          [\<lparr>blob = ''ewallet.pem'', local_path = PEM_PATH e\<rparr>,
           \<lparr>blob = ''tnsnames.ora'', local_path = TNS_PATH e\<rparr>] w = (r1, w1)"
    using t unfolding download_wallet_files_try_def by (simp del: download_each.simps)
  from download_each_frame [OF this] show ?thesis .
next
  case (Some x)
  then show ?thesis using t by (auto simp: download_wallet_files_try_def)
qed

lemma download_wallet_files_frame:
  assumes "download_wallet_files e w = (r, w')"
  shows "r = Inr () \<and>
    np_random w' = np_random w \<and> db_table w' = db_table w \<and> db_txn w' = db_txn w \<and>
    db_connected w' = db_connected w \<and>
    (\<exists>evs. log w' = log w @ evs \<and> (\<forall>ev\<in>set evs. is_download_event ev))"
proof -
  obtain r1 w1 where t: "download_wallet_files_try e w = (r1, w1)"
    by (cases "download_wallet_files_try e w")
  note fr = download_wallet_files_try_frame [OF t]
  show ?thesis
  proof (cases r1)
    case (Inl x)
    then have "r = Inr ()" "w' = emit (LogDownloadError x) w1"
      using assms t by (simp_all add: download_wallet_files_def)
    then show ?thesis using fr by (auto simp: emit_def)
  next
    case (Inr u)
    then have "r = Inr ()" "w' = w1"
      using assms t by (simp_all add: download_wallet_files_def)
    then show ?thesis using fr by simp
  qed
qed

lemma get_db_connection_failed:
  "connect_failure e = Some x \<Longrightarrow>
   get_db_connection e w =
     (if x = DatabaseError then (Inr None, emit (LogConnectError x) (emit CallConnect w))
      else (Inl x, emit CallConnect w))"
  by (simp add: get_db_connection_def Let_def)

lemma get_db_connection_ok:
  "connect_failure e = None \<Longrightarrow>
   get_db_connection e w =
     (Inr (Some Connection), (emit CallConnect w)\<lparr>db_txn := [], db_connected := True\<rparr>)"
  by (simp add: get_db_connection_def Let_def)

lemma executemany_eq:
  "executemany rej rows =
     (if \<exists>r\<in>set rows. rej r then Inl DatabaseError else Inr (), takeWhile (\<lambda>r. \<not> rej r) rows)"
  by (induction rows) (auto split: prod.splits)

lemma insert_data_rejected:
  assumes "db_connected w" "\<exists>r\<in>set rows. row_rejected e r"
  shows "insert_data e c rows w =
    (Inl DatabaseError,
     (emit (CallExecuteMany (length rows)) w)
       \<lparr>db_txn := db_txn w @ takeWhile (\<lambda>r. \<not> row_rejected e r) rows\<rparr>)"
  using assms by (simp add: insert_data_def executemany_eq Let_def emit_def)

lemma insert_data_accepted:
  assumes "db_connected w" "\<not> (\<exists>r\<in>set rows. row_rejected e r)"
  shows "insert_data e c rows w =
    (case commit_failure e of
       Some x \<Rightarrow>
         (Inl x, emit CallCommit
                   ((emit (CallExecuteMany (length rows)) w)\<lparr>db_txn := db_txn w @ rows\<rparr>))
     | None \<Rightarrow>
         (Inr (), emit (LogInserted (length rows))
                    ((emit CallCommit (emit (CallExecuteMany (length rows)) w))
                       \<lparr>db_table := db_table w @ db_txn w @ rows, db_txn := []\<rparr>)))"
proof -
  have "takeWhile (\<lambda>r. \<not> row_rejected e r) rows = rows" using assms(2) by simp
  then show ?thesis using assms
    by (simp add: insert_data_def executemany_eq Let_def emit_def split: option.splits)
qed

lemma run_connect_failed:
  assumes "connect_failure e = Some x"
  shows "\<exists>w2. download_wallet_files e (if past_due e then emit LogPastDue w else w) = (Inr (), w2) \<and>
    generate_usage_data e w =
      (if x = DatabaseError then (Inr (), emit (LogConnectError x) (emit CallConnect w2))
       else (Inl x, emit CallConnect w2))"
proof -
  let ?w1 = "if past_due e then emit LogPastDue w else w"
  obtain r w2 where d: "download_wallet_files e ?w1 = (r, w2)"
    by (cases "download_wallet_files e ?w1")
  from download_wallet_files_frame [OF d] have r: "r = Inr ()" by simp
  have "generate_usage_data e w =
      (if x = DatabaseError then (Inr (), emit (LogConnectError x) (emit CallConnect w2))
       else (Inl x, emit CallConnect w2))"
    using d r by (simp add: generate_usage_data_def Let_def get_db_connection_failed [OF assms])
  then show ?thesis using d r by blast
qed

lemma run_connected:
  assumes "connect_failure e = None"
  shows "\<exists>w2 rows g. download_wallet_files e (if past_due e then emit LogPastDue w else w) = (Inr (), w2) \<and>
    generate_sample_data_tuples 10 (np_random w2) = Inr (rows, g) \<and> length rows = 10 \<and>
    generate_usage_data e w =
      (case insert_data e Connection rows
              ((emit CallConnect w2)\<lparr>db_txn := [], db_connected := True, np_random := g\<rparr>) of
         (Inl x, w4) \<Rightarrow> (Inl x, w4)
       | (Inr u, w4) \<Rightarrow> (Inr (), connection_close w4))"
proof -
  let ?w1 = "if past_due e then emit LogPastDue w else w"
  obtain r w2 where d: "download_wallet_files e ?w1 = (r, w2)"
    by (cases "download_wallet_files e ?w1")
  from download_wallet_files_frame [OF d] have r: "r = Inr ()" by simp
  have "(0::int) \<le> 10" by simp
  from gen_rows [OF this, of "np_random w2"] obtain rows g where
    gen: "generate_sample_data_tuples 10 (np_random w2) = Inr (rows, g)" and len: "length rows = nat 10"
    by blast
  have "generate_usage_data e w =
      (case insert_data e Connection rows
              ((emit CallConnect w2)\<lparr>db_txn := [], db_connected := True, np_random := g\<rparr>) of
         (Inl x, w4) \<Rightarrow> (Inl x, w4)
       | (Inr u, w4) \<Rightarrow> (Inr (), connection_close w4))"
    using d r gen
    by (simp add: generate_usage_data_def Let_def get_db_connection_ok [OF assms] emit_def)
  then show ?thesis using d r gen len by auto
qed

lemma insert_data_log: "\<exists>evs. log (snd (insert_data e c rows w)) = log w @ evs"
  by (auto simp: insert_data_def emit_def Let_def split: prod.splits sum.splits option.splits)

lemma run_log_shape:
  assumes d: "download_wallet_files e (if past_due e then emit LogPastDue w else w) = (Inr (), w2)"
  shows "\<exists>post. log (snd (generate_usage_data e w)) = log w2 @ CallConnect # post"
proof (cases "connect_failure e")
  case (Some x)
  from run_connect_failed [OF Some, of w] d show ?thesis
    by (auto simp: emit_def)
next
  case None
  from run_connected [OF None, of w] d obtain rows g where
    run: "generate_usage_data e w =
      (case insert_data e Connection rows
              ((emit CallConnect w2)\<lparr>db_txn := [], db_connected := True, np_random := g\<rparr>) of
         (Inl x, w4) \<Rightarrow> (Inl x, w4)
       | (Inr u, w4) \<Rightarrow> (Inr (), connection_close w4))"
    by auto
  let ?w3 = "(emit CallConnect w2)\<lparr>db_txn := [], db_connected := True, np_random := g\<rparr>"
  obtain r w4 where i: "insert_data e Connection rows ?w3 = (r, w4)"
    by (cases "insert_data e Connection rows ?w3")
  from insert_data_log [of e Connection rows ?w3] i obtain evs where
    "log w4 = log w2 @ CallConnect # evs" by (auto simp: emit_def)
  then show ?thesis using run i
    by (cases r) (auto simp: connection_close_def emit_def)
qed

lemma past_due_log:
  "\<exists>pd. log (if past_due e then emit LogPastDue w else w) = log w @ pd \<and>
     (\<forall>ev\<in>set pd. ev = LogPastDue)"
  by (simp add: emit_def)

section \<open>Claims about provisioning and connecting\<close>

text \<open>
  Claim C10. \<^verbatim>\<open>download_wallet_files\<close> returns normally on every input: whatever
  exception the fetch raises is caught inside and only logged. So every run goes on to
  call \<^verbatim>\<open>oracledb.connect\<close>, whether none, one or both of the files were staged.
\<close>
theorem download_wallet_files_returns_and_run_connects:
  "fst (download_wallet_files e w) = Inr () \<and>
   CallConnect \<in> set (new_events w (snd (generate_usage_data e w)))"
proof
  obtain r w' where d: "download_wallet_files e w = (r, w')"
    by (cases "download_wallet_files e w")
  from download_wallet_files_frame [OF d] d show "fst (download_wallet_files e w) = Inr ()"
    by simp
next
  let ?w1 = "if past_due e then emit LogPastDue w else w"
  obtain r w2 where d: "download_wallet_files e ?w1 = (r, w2)"
    by (cases "download_wallet_files e ?w1")
  from download_wallet_files_frame [OF d] obtain evs where
    r: "r = Inr ()" and l2: "log w2 = log ?w1 @ evs" by blast
  from past_due_log [of e w] obtain pd where l1: "log ?w1 = log w @ pd" by blast
  from run_log_shape [of e w w2] d r obtain post where
    "log (snd (generate_usage_data e w)) = log w2 @ CallConnect # post" by blast
  then have "log (snd (generate_usage_data e w)) = log w @ (pd @ evs @ CallConnect # post)"
    using l1 l2 by simp
  from new_events_append [OF this]
  show "CallConnect \<in> set (new_events w (snd (generate_usage_data e w)))" by simp
qed

text \<open>
  Claim C3, as the code has it. When fetching or writing a credential file fails in a
  run, the exception is caught inside \<^verbatim>\<open>download_wallet_files\<close> and logged as an
  error; the function returns normally, no error value reaches the caller, and the run
  goes on to call \<^verbatim>\<open>oracledb.connect\<close> right after the error record.
\<close>
theorem download_failure_is_logged_and_run_connects:
  assumes "fst (download_wallet_files_try e (if past_due e then emit LogPastDue w else w)) = Inl x"
  shows "fst (download_wallet_files e (if past_due e then emit LogPastDue w else w)) = Inr () \<and>
    (\<exists>pre post. new_events w (snd (generate_usage_data e w)) =
        pre @ LogDownloadError x # CallConnect # post)"
proof -
  let ?w1 = "if past_due e then emit LogPastDue w else w"
  obtain wt where t: "download_wallet_files_try e ?w1 = (Inl x, wt)"
    using assms by (cases "download_wallet_files_try e ?w1") simp
  have d: "download_wallet_files e ?w1 = (Inr (), emit (LogDownloadError x) wt)"
    by (simp add: download_wallet_files_def t)
  from download_wallet_files_try_frame [OF t] obtain evs where
    l2: "log wt = log ?w1 @ evs" by blast
  from past_due_log [of e w] obtain pd where l1: "log ?w1 = log w @ pd" by blast
  from run_log_shape [OF d] obtain post where
    "log (snd (generate_usage_data e w)) = log (emit (LogDownloadError x) wt) @ CallConnect # post"
    by blast
  then have "log (snd (generate_usage_data e w)) =
      log w @ ((pd @ evs) @ LogDownloadError x # CallConnect # post)"
    using l1 l2 by (simp add: emit_def)
  from new_events_append [OF this] have
    "\<exists>pre post. new_events w (snd (generate_usage_data e w)) =
        pre @ LogDownloadError x # CallConnect # post" by blast
  then show ?thesis using d by simp
qed

theorem download_failure_is_logged_and_run_connects_witness:
  "fst (download_wallet_files_try e_no_blob (if past_due e_no_blob then emit LogPastDue w_init else w_init))
     = Inl StorageError \<and>
   fst (download_wallet_files e_no_blob (if past_due e_no_blob then emit LogPastDue w_init else w_init))
     = Inr () \<and>
    (\<exists>pre post. new_events w_init (snd (generate_usage_data e_no_blob w_init)) =
        pre @ LogDownloadError StorageError # CallConnect # post)"
proof -
  have h: "fst (download_wallet_files_try e_no_blob
      (if past_due e_no_blob then emit LogPastDue w_init else w_init)) = Inl StorageError"
    by (simp add: download_wallet_files_try_def download_file_def e_no_blob_def e_ok_def Let_def)
  from download_failure_is_logged_and_run_connects [OF h] h show ?thesis by simp
qed

text \<open>
  The claim as stated (the failure is reported as an error of the provisioning step and the
  run ends without a connection attempt) fails when the storage service serves no blob:
  \<^verbatim>\<open>download_wallet_files\<close> returns normally, leaving an empty \<^verbatim>\<open>ewallet.pem\<close> and
  one log record, and the run calls \<^verbatim>\<open>oracledb.connect\<close>.
\<close>

theorem provisioning_failure_not_reported_counterexample:
  "download_wallet_files e_no_blob w_init =
     (Inr (), w_init\<lparr>files := (files w_init)(PEM_PATH e_no_blob \<mapsto> []),
                     log := [LogDownloadError StorageError]\<rparr>) \<and>
   CallConnect \<in> set (log (snd (generate_usage_data e_no_blob w_init)))"
proof -
  have a: "download_wallet_files e_no_blob w_init =
     (Inr (), w_init\<lparr>files := (files w_init)(PEM_PATH e_no_blob \<mapsto> []),
                     log := [LogDownloadError StorageError]\<rparr>)"
    by (simp add: download_wallet_files_def download_wallet_files_try_def download_file_def
        e_no_blob_def e_ok_def Let_def emit_def w_init_def)
  have "past_due e_no_blob = False" by (simp add: e_no_blob_def e_ok_def)
  with a have "download_wallet_files e_no_blob
      (if past_due e_no_blob then emit LogPastDue w_init else w_init) =
     (Inr (), w_init\<lparr>files := (files w_init)(PEM_PATH e_no_blob \<mapsto> []),
                     log := [LogDownloadError StorageError]\<rparr>)" by simp
  from run_log_shape [OF this] a show ?thesis by auto
qed

text \<open>
  Claim C7. When \<^verbatim>\<open>oracledb.connect\<close> fails, the run neither generates nor inserts:
  numpy's generator is left where it was, the table and the transaction are unchanged, and
  neither \<^verbatim>\<open>executemany\<close> nor \<^verbatim>\<open>commit\<close> is called. The run returns when the failure is
  a \<^verbatim>\<open>DatabaseError\<close> and lets any other exception through.
\<close>
theorem connect_failure_skips_generation_and_insert:
  assumes "connect_failure e = Some x"
  shows "fst (generate_usage_data e w) = (if x = DatabaseError then Inr () else Inl x) \<and>
    np_random (snd (generate_usage_data e w)) = np_random w \<and>
    db_table (snd (generate_usage_data e w)) = db_table w \<and>
    db_txn (snd (generate_usage_data e w)) = db_txn w \<and>
    (\<forall>k. CallExecuteMany k \<notin> set (new_events w (snd (generate_usage_data e w)))) \<and>
    CallCommit \<notin> set (new_events w (snd (generate_usage_data e w)))"
proof -
  let ?w1 = "if past_due e then emit LogPastDue w else w"
  from run_connect_failed [OF assms, of w] obtain w2 where
    d: "download_wallet_files e ?w1 = (Inr (), w2)" and
    run: "generate_usage_data e w =
      (if x = DatabaseError then (Inr (), emit (LogConnectError x) (emit CallConnect w2))
       else (Inl x, emit CallConnect w2))" by blast
  from download_wallet_files_frame [OF d] obtain evs where
    fr: "np_random w2 = np_random ?w1" "db_table w2 = db_table ?w1" "db_txn w2 = db_txn ?w1" and
    l2: "log w2 = log ?w1 @ evs" and dl: "\<forall>ev\<in>set evs. is_download_event ev" by blast
  from past_due_log [of e w] obtain pd where l1: "log ?w1 = log w @ pd"
    and pd: "\<forall>ev\<in>set pd. ev = LogPastDue" by blast
  have fr1: "np_random ?w1 = np_random w" "db_table ?w1 = db_table w" "db_txn ?w1 = db_txn w"
    by (simp_all add: emit_def)
  define tl where "tl = (if x = DatabaseError then [CallConnect, LogConnectError x] else [CallConnect])"
  have "log (snd (generate_usage_data e w)) = log w @ (pd @ evs @ tl)"
    using run l1 l2 by (simp add: emit_def tl_def)
  from new_events_append [OF this] have
    ne: "new_events w (snd (generate_usage_data e w)) = pd @ evs @ tl" .
  have no1: "CallExecuteMany k \<notin> set (pd @ evs @ tl)" for k
    using pd dl by (auto simp: tl_def)
  have no2: "CallCommit \<notin> set (pd @ evs @ tl)"
    using pd dl by (auto simp: tl_def)
  show ?thesis using run fr fr1 ne no1 no2 by (simp add: emit_def)
qed

theorem connect_failure_skips_generation_and_insert_witness:
  "connect_failure e_no_connect = Some DatabaseError \<and>
    fst (generate_usage_data e_no_connect w_init) = Inr () \<and>
    np_random (snd (generate_usage_data e_no_connect w_init)) = np_random w_init \<and>
    db_table (snd (generate_usage_data e_no_connect w_init)) = db_table w_init \<and>
    db_txn (snd (generate_usage_data e_no_connect w_init)) = db_txn w_init \<and>
    (\<forall>k. CallExecuteMany k \<notin> set (new_events w_init (snd (generate_usage_data e_no_connect w_init)))) \<and>
    CallCommit \<notin> set (new_events w_init (snd (generate_usage_data e_no_connect w_init)))"
proof -
  have h: "connect_failure e_no_connect = Some DatabaseError"
    by (simp add: e_no_connect_def e_ok_def)
  from connect_failure_skips_generation_and_insert [OF h, of w_init] h show ?thesis by simp
qed

lemma paths_distinct: "PEM_PATH e \<noteq> TNS_PATH e"
  by (simp add: PEM_PATH_def TNS_PATH_def os_path_join_def)

text \<open>
  Claim C8. Provisioning is idempotent: a second call of \<^verbatim>\<open>download_wallet_files\<close>
  right after the first, against the same settings and the same storage service (the
  same blobs, answered the same way), leaves at \<open>PEM_PATH\<close> and at \<open>TNS_PATH\<close>
  exactly the contents that the first call left there.
\<close>
theorem provision_idempotent:
  "files (snd (download_wallet_files e (snd (download_wallet_files e w)))) (PEM_PATH e) =
     files (snd (download_wallet_files e w)) (PEM_PATH e) \<and>
   files (snd (download_wallet_files e (snd (download_wallet_files e w)))) (TNS_PATH e) =
     files (snd (download_wallet_files e w)) (TNS_PATH e)"
  by (simp add: download_wallet_files_def download_wallet_files_try_def download_file_def
      emit_def Let_def split: option.splits sum.splits)

lemma provision_stages_blobs:
  assumes "client_failure e = None"
    "open_failure e (PEM_PATH e) = None" "open_failure e (TNS_PATH e) = None"
    "blob_contents e ''ewallet.pem'' = Inr pem" "blob_contents e ''tnsnames.ora'' = Inr tns"
  shows "files (snd (download_wallet_files e w)) (PEM_PATH e) = Some pem \<and>
    files (snd (download_wallet_files e w)) (TNS_PATH e) = Some tns"
  using assms paths_distinct [of e]
  by (simp add: download_wallet_files_def download_wallet_files_try_def download_file_def
      emit_def Let_def)

section \<open>Claims about inserting\<close>


lemma run_insert_rejected:
  assumes c: "connect_failure e = None" and rej: "\<forall>r. row_rejected e r"
  shows "fst (generate_usage_data e w) = Inl DatabaseError \<and>
    db_connected (snd (generate_usage_data e w)) \<and>
    CallClose \<notin> set (new_events w (snd (generate_usage_data e w)))"
proof -
  let ?w1 = "if past_due e then emit LogPastDue w else w"
  from run_connected [OF c, of w] obtain w2 rows g where
    d: "download_wallet_files e ?w1 = (Inr (), w2)" and len: "length rows = 10" and
    run: "generate_usage_data e w =
      (case insert_data e Connection rows
              ((emit CallConnect w2)\<lparr>db_txn := [], db_connected := True, np_random := g\<rparr>) of
         (Inl x, w4) \<Rightarrow> (Inl x, w4)
       | (Inr u, w4) \<Rightarrow> (Inr (), connection_close w4))"
    by blast
  let ?w3 = "(emit CallConnect w2)\<lparr>db_txn := [], db_connected := True, np_random := g\<rparr>"
  have ne: "rows \<noteq> []" using len by auto
  then have ex: "\<exists>r\<in>set rows. row_rejected e r" using rej by (cases rows) auto
  have conn: "db_connected ?w3" by simp
  note ins = insert_data_rejected [OF conn ex, of Connection]
  from download_wallet_files_frame [OF d] obtain evs where
    l2: "log w2 = log ?w1 @ evs" and dl: "\<forall>ev\<in>set evs. is_download_event ev" by blast
  from past_due_log [of e w] obtain pd where l1: "log ?w1 = log w @ pd"
    and pd: "\<forall>ev\<in>set pd. ev = LogPastDue" by blast
  have "log (snd (generate_usage_data e w)) =
      log w @ (pd @ evs @ [CallConnect, CallExecuteMany (length rows)])"
    using run ins l1 l2 by (simp add: emit_def)
  from new_events_append [OF this] have
    "new_events w (snd (generate_usage_data e w)) =
       pd @ evs @ [CallConnect, CallExecuteMany (length rows)]" .
  moreover have "CallClose \<notin> set (pd @ evs @ [CallConnect, CallExecuteMany (length rows)])"
    using pd dl by auto
  ultimately show ?thesis using run ins by (simp add: emit_def)
qed

text \<open>
  Claim C2 says that no exception leaves a run. Against a database that accepts the
  connection and rejects the rows, the run of \<^verbatim>\<open>generate_usage_data\<close> ends with the
  driver's \<^verbatim>\<open>DatabaseError\<close> leaving the function.
\<close>
theorem insert_failure_escapes_run:
  "fst (generate_usage_data e_reject_all w_init) = Inl DatabaseError"
proof -
  have "connect_failure e_reject_all = None" "\<forall>r. row_rejected e_reject_all r"
    by (simp_all add: e_reject_all_def e_ok_def)
  from run_insert_rejected [OF this] show ?thesis by simp
qed

text \<open>
  Claim C4 says that the connection is closed on every exit path of a run that reaches
  the insert. In the same run as above the session is still open when the exception
  leaves \<^verbatim>\<open>generate_usage_data\<close>, and \<^verbatim>\<open>connection.close()\<close> was never called.
\<close>
theorem insert_failure_leaves_connection_open:
  "db_connected (snd (generate_usage_data e_reject_all w_init)) \<and>
   CallClose \<notin> set (log (snd (generate_usage_data e_reject_all w_init)))"
proof -
  have "connect_failure e_reject_all = None" "\<forall>r. row_rejected e_reject_all r"
    by (simp_all add: e_reject_all_def e_ok_def)
  from run_insert_rejected [OF this, of w_init] show ?thesis
    by (simp add: new_events_def w_init_def)
qed

text \<open>
  The run in which every stage succeeds: ten rows are committed and the connection is
  closed.
\<close>

lemma run_success_closes_connection:
  assumes c: "connect_failure e = None" and acc: "\<forall>r. \<not> row_rejected e r"
    and cm: "commit_failure e = None"
  shows "fst (generate_usage_data e w) = Inr () \<and>
    \<not> db_connected (snd (generate_usage_data e w)) \<and>
    (\<exists>rows. length rows = 10 \<and>
       db_table (snd (generate_usage_data e w)) = db_table w @ rows)"
proof -
  let ?w1 = "if past_due e then emit LogPastDue w else w"
  from run_connected [OF c, of w] obtain w2 rows g where
    d: "download_wallet_files e ?w1 = (Inr (), w2)" and len: "length rows = 10" and
    run: "generate_usage_data e w =
      (case insert_data e Connection rows
              ((emit CallConnect w2)\<lparr>db_txn := [], db_connected := True, np_random := g\<rparr>) of
         (Inl x, w4) \<Rightarrow> (Inl x, w4)
       | (Inr u, w4) \<Rightarrow> (Inr (), connection_close w4))"
    by blast
  let ?w3 = "(emit CallConnect w2)\<lparr>db_txn := [], db_connected := True, np_random := g\<rparr>"
  have conn: "db_connected ?w3" by simp
  have ok: "\<not> (\<exists>r\<in>set rows. row_rejected e r)" using acc by simp
  note ins = insert_data_accepted [OF conn ok, of Connection]
  from download_wallet_files_frame [OF d] have "db_table w2 = db_table ?w1" by simp
  then have t: "db_table w2 = db_table w" by (simp add: emit_def)
  have "fst (generate_usage_data e w) = Inr ()"
    "\<not> db_connected (snd (generate_usage_data e w))"
    "db_table (snd (generate_usage_data e w)) = db_table w @ rows"
    using run ins cm t by (simp_all add: emit_def connection_close_def)
  then show ?thesis using len by blast
qed

end
